theory Spec2Isabelle
  imports Main "HOL-Library.Sublist" "HOL-Library.Multiset"
begin

section \<open>The remote store\<close>

text \<open>
  The Google Drive client is an external collaborator of \<^verbatim>\<open>client.py\<close>. It is
  modelled by the three capabilities the program uses: listing the untrashed children of a
  parent, creating a folder, and uploading a file. The identifier \<^verbatim>\<open>'root'\<close> is
  \<open>Root\<close>; the identifiers the store assigns are \<open>Fid n\<close>, handed out from a counter,
  so a new identifier differs from every earlier one. New entries are listed after the
  entries that were there before, and the store keeps the title it is given.
\<close>

datatype file_id = Root | Fid nat

record gfile =
  fid :: file_id
  title :: string
  parent :: file_id
  is_folder :: bool
  trashed :: bool
  content :: "string option"

text \<open>
  \<open>list_error\<close> says for which parents the listing request fails with an
  \<^verbatim>\<open>HttpError\<close>, and what its \<^verbatim>\<open>content\<close> is: the body of the response, which
  the client library keeps as \<^verbatim>\<open>bytes\<close>.
\<close>

record drive =
  files :: "gfile list"
  next_id :: nat
  list_error :: "file_id \<rightharpoonup> string"

text \<open>
  The exceptions. \<open>MalformedNode b\<close> is the \<^verbatim>\<open>ValueError\<close> with which
  \<^verbatim>\<open>ast.literal_eval\<close> rejects the object \<open>b\<close> (\<^verbatim>\<open>malformed node or string\<close>);
  \<open>ValueError m\<close> is the one the program raises itself, with message \<open>m\<close>.
\<close>

datatype pyerr =
    ValueError string
  | MalformedNode string
  | UnboundLocalError
  | TypeError
  | HttpError string
  | ReError
  | OSError
  | FileNotFoundError
  | IsADirectoryError

text \<open>\<^verbatim>\<open>drive_client.ListFile({'q': "'<parent>' in parents and trashed=false"}).GetList()\<close>\<close>

definition ListFile :: "drive \<Rightarrow> file_id \<Rightarrow> string + gfile list" where
  "ListFile st parent_folder_id =
     (case list_error st parent_folder_id of
        Some message \<Rightarrow> Inl message
      | None \<Rightarrow> Inr (filter (\<lambda>f. parent f = parent_folder_id \<and> \<not> trashed f) (files st)))"

definition new_folder :: "drive \<Rightarrow> string \<Rightarrow> file_id \<Rightarrow> gfile" where
  "new_folder st folder_name parent_folder_id =
     \<lparr>fid = Fid (next_id st), title = folder_name, parent = parent_folder_id,
      is_folder = True, trashed = False, content = None\<rparr>"

text \<open>\<^verbatim>\<open>create_gdrive_folder\<close>: the new folder's identifier and the drive after the upload.\<close>

definition create_gdrive_folder :: "drive \<Rightarrow> string \<Rightarrow> file_id \<Rightarrow> file_id \<times> drive" where
  "create_gdrive_folder st folder_name parent_folder_id =
     (Fid (next_id st),
      st\<lparr>files := files st @ [new_folder st folder_name parent_folder_id],
         next_id := Suc (next_id st)\<rparr>)"

section \<open>Strings\<close>

text \<open>\<^verbatim>\<open>s.strip(c)\<close> for a single character \<open>c\<close>.\<close>

definition py_strip :: "char \<Rightarrow> string \<Rightarrow> string" where
  "py_strip c s = rev (dropWhile (\<lambda>x. x = c) (rev (dropWhile (\<lambda>x. x = c) s)))"

text \<open>\<^verbatim>\<open>s.split(c)\<close>: cut at every occurrence of \<open>c\<close>; the result always has a first piece.\<close>

fun py_split :: "char \<Rightarrow> string \<Rightarrow> string list" where
  "py_split c [] = [[]]"
| "py_split c (x # xs) =
     (if x = c then [] # py_split c xs
      else (x # hd (py_split c xs)) # tl (py_split c xs))"

text \<open>\<^verbatim>\<open>c.join(pieces)\<close>\<close>

fun py_join :: "char \<Rightarrow> string list \<Rightarrow> string" where
  "py_join c [] = []"
| "py_join c [p] = p"
| "py_join c (p # q # ps) = p @ c # py_join c (q # ps)"

text \<open>\<^verbatim>\<open>s.lower()\<close> on ASCII letters.\<close>

definition lower_char :: "char \<Rightarrow> char" where
  "lower_char c =
     (case map_of (zip ''ABCDEFGHIJKLMNOPQRSTUVWXYZ'' ''abcdefghijklmnopqrstuvwxyz'') c of
        Some l \<Rightarrow> l
      | None \<Rightarrow> c)"

definition py_lower :: "string \<Rightarrow> string" where
  "py_lower s = map lower_char s"

text \<open>\<^verbatim>\<open>pat in s\<close> for strings.\<close>

primrec py_in :: "string \<Rightarrow> string \<Rightarrow> bool" where
  "py_in pat [] = (pat = [])"
| "py_in pat (c # cs) = (prefix pat (c # cs) \<or> py_in pat cs)"

section \<open>Path resolution\<close>

text \<open>
  \<^verbatim>\<open>search_file_tree\<close> is a closure over \<^verbatim>\<open>dst_folder_name\<close> and over the list
  \<^verbatim>\<open>folder_path\<close>, which it pops from the left; here both are arguments. The result is
  the returned value (\<open>None\<close> for Python's \<^verbatim>\<open>None\<close>, returned when the list is
  exhausted) with the drive after the call, or the exception raised. The \<^verbatim>\<open>for\<close>
  loop returns at the first listed file whose title is the segment, which is
  \<^const>\<open>List.find\<close>. The handler of a listing failure first evaluates
  \<^verbatim>\<open>ast.literal_eval(e.content)\<close>, line 86. Had that given a message, a message
  that does not say \<^verbatim>\<open>file not found\<close> would only be logged, and the loop would
  then read the local \<^verbatim>\<open>file_list\<close>, which was never assigned.
\<close>

text \<open>
  \<^verbatim>\<open>ast.literal_eval(body)['error']['message']\<close> for a \<^verbatim>\<open>bytes\<close> object:
  \<^verbatim>\<open>literal_eval\<close> parses a \<^verbatim>\<open>str\<close> and converts a syntax tree; any other
  object, so every \<^verbatim>\<open>bytes\<close> object, is rejected.
\<close>

definition literal_eval_message :: "string \<Rightarrow> pyerr + string" where
  "literal_eval_message body = Inl (MalformedNode body)"

fun search_file_tree ::
  "string \<Rightarrow> drive \<Rightarrow> file_id \<Rightarrow> string list \<Rightarrow> pyerr + (file_id option \<times> drive)" where
  "search_file_tree dst_folder_name st parent_folder_id [] = Inr (None, st)"
| "search_file_tree dst_folder_name st parent_folder_id (folder_name # folder_path) =
     (case ListFile st parent_folder_id of
        Inl body \<Rightarrow>
          (case literal_eval_message body of
             Inl e \<Rightarrow> Inl e
           | Inr message \<Rightarrow>
               (if py_in ''file not found'' (py_lower message)
                then Inl (ValueError (''Folder '' @ folder_name @
                            '' was not found on Google Drive: '' @ message))
                else Inl UnboundLocalError))
      | Inr file_list \<Rightarrow>
          (case List.find (\<lambda>file. title file = folder_name) file_list of
             Some file \<Rightarrow>
               (if folder_name = dst_folder_name then Inr (Some (fid file), st)
                else search_file_tree dst_folder_name st (fid file) folder_path)
           | None \<Rightarrow>
               (case create_gdrive_folder st folder_name parent_folder_id of
                  (folder_id, st') \<Rightarrow>
                    (if folder_name = dst_folder_name then Inr (Some folder_id, st')
                     else search_file_tree dst_folder_name st' folder_id folder_path))))"

text \<open>\<^verbatim>\<open>folder_path.strip("/").split("/")\<close>, line 72.\<close>

definition dst_segments :: "string \<Rightarrow> string list" where
  "dst_segments folder_path = py_split CHR ''/'' (py_strip CHR ''/'' folder_path)"

definition get_folder_id :: "drive \<Rightarrow> string \<Rightarrow> pyerr + (file_id option \<times> drive)" where
  "get_folder_id st folder_path =
     (let segments = dst_segments folder_path;
          dst_folder_name = last segments
      in search_file_tree dst_folder_name st Root segments)"

text \<open>A drive with no files at all, whose next identifier is \<open>Fid n\<close>.\<close>

definition empty_drive :: "nat \<Rightarrow> drive" where
  "empty_drive n = \<lparr>files = [], next_id = n, list_error = Map.empty\<rparr>"

definition folder :: "nat \<Rightarrow> string \<Rightarrow> file_id \<Rightarrow> gfile" where
  "folder n name p =
     \<lparr>fid = Fid n, title = name, parent = p, is_folder = True, trashed = False, content = None\<rparr>"

text \<open>A drive whose root holds one ordinary file, titled \<^verbatim>\<open>A\<close>, and no folder.\<close>

definition plain_file_drive :: drive where
  "plain_file_drive =
     \<lparr>files = [\<lparr>fid = Fid 0, title = ''A'', parent = Root, is_folder = False,
                trashed = False, content = Some ''/tmp/A''\<rparr>],
      next_id = 1, list_error = Map.empty\<rparr>"

section \<open>Local files and the upload of one file\<close>

text \<open>
  The Python values the program mixes: strings, \<^verbatim>\<open>pathlib.Path\<close> objects and the
  \<^verbatim>\<open>GoogleDriveFile\<close> objects a listing returns. Two values of different classes are
  never equal. A \<^verbatim>\<open>GoogleDriveFile\<close> is a \<^verbatim>\<open>dict\<close>, which Python cannot hash.
\<close>

datatype pyobj = PyStr string | PathObj string | DriveFile gfile

fun hashable :: "pyobj \<Rightarrow> bool" where
  "hashable (PyStr s) = True"
| "hashable (PathObj p) = True"
| "hashable (DriveFile f) = False"

text \<open>
  The file system and the pattern languages are outside the program: \<open>iterdir\<close> lists a
  directory (or fails when it cannot), \<open>glob\<close> is \<^verbatim>\<open>Path(d).glob(pattern)\<close>, and
  \<open>re_compile\<close> gives the matcher of a regular expression, \<open>None\<close> for a pattern that
  does not compile.
\<close>

record local_env =
  iterdir :: "string \<Rightarrow> pyerr + string list"
  glob :: "string \<Rightarrow> string \<Rightarrow> pyerr + string list"
  re_compile :: "string \<Rightarrow> (string \<Rightarrow> bool) option"

text \<open>
  \<^verbatim>\<open>re.search(pattern, subject)\<close> compiles the pattern and then scans the subject,
  which has to be a string.
\<close>

definition re_search ::
  "(string \<Rightarrow> (string \<Rightarrow> bool) option) \<Rightarrow> string \<Rightarrow> pyobj \<Rightarrow> pyerr + bool" where
  "re_search compile pattern subject =
     (case compile pattern of
        None \<Rightarrow> Inl ReError
      | Some matcher \<Rightarrow>
          (case subject of PyStr s \<Rightarrow> Inr (matcher s) | _ \<Rightarrow> Inl TypeError))"

text \<open>\<^verbatim>\<open>[f for d in dirs for f in g(d)]\<close>, where \<open>g\<close> may raise.\<close>

fun for_dirs :: "(string \<Rightarrow> pyerr + string list) \<Rightarrow> string list \<Rightarrow> pyerr + string list" where
  "for_dirs g [] = Inr []"
| "for_dirs g (d # ds) =
     (case g d of
        Inl e \<Rightarrow> Inl e
      | Inr fs \<Rightarrow> (case for_dirs g ds of Inl e \<Rightarrow> Inl e | Inr rest \<Rightarrow> Inr (fs @ rest)))"

text \<open>The filter \<^verbatim>\<open>... if t(f)\<close> of a comprehension, where \<open>t\<close> may raise.\<close>

fun keep_if :: "(string \<Rightarrow> pyerr + bool) \<Rightarrow> string list \<Rightarrow> pyerr + string list" where
  "keep_if t [] = Inr []"
| "keep_if t (f # fs) =
     (case t f of
        Inl e \<Rightarrow> Inl e
      | Inr b \<Rightarrow>
          (case keep_if t fs of
             Inl e \<Rightarrow> Inl e
           | Inr rest \<Rightarrow> Inr (if b then f # rest else rest)))"

datatype dirs_arg = OneDir string | DirList "string list"

text \<open>\<^verbatim>\<open>if not isinstance(dirs, list): dirs = [dirs]\<close>\<close>

fun dir_list :: "dirs_arg \<Rightarrow> string list" where
  "dir_list (DirList ds) = ds"
| "dir_list (OneDir d) = [d]"

text \<open>\<^verbatim>\<open>get_local_files\<close>; the paths found stand for the \<^verbatim>\<open>Path\<close> objects returned.\<close>

definition get_local_files ::
  "local_env \<Rightarrow> dirs_arg \<Rightarrow> string option \<Rightarrow> string option \<Rightarrow> pyerr + string list" where
  "get_local_files env dirs_in glob_pattern re_pattern =
     (let dirs = dir_list dirs_in in
      case (if glob_pattern = None \<and> re_pattern = None then for_dirs (iterdir env) dirs
            else Inr []) of
        Inl e \<Rightarrow> Inl e
      | Inr files1 \<Rightarrow>
          (case (case glob_pattern of
                   None \<Rightarrow> Inr []
                 | Some g \<Rightarrow> for_dirs (\<lambda>d. glob env d g) dirs) of
             Inl e \<Rightarrow> Inl e
           | Inr files2 \<Rightarrow>
               (case (case re_pattern of
                        None \<Rightarrow> Inr []
                      | Some p \<Rightarrow>
                          for_dirs
                            (\<lambda>d. case iterdir env d of
                                   Inl e \<Rightarrow> Inl e
                                 | Inr fs \<Rightarrow>
                                     keep_if (\<lambda>f. re_search (re_compile env) p (PathObj f)) fs)
                            dirs) of
                  Inl e \<Rightarrow> Inl e
                | Inr files3 \<Rightarrow> Inr (files1 @ files2 @ files3))))"

text \<open>
  A directory \<^verbatim>\<open>src\<close> with one entry, and a regular expression compiler that rejects
  the unbalanced pattern \<^verbatim>\<open>(\<close>.
\<close>

definition one_entry_env :: local_env where
  "one_entry_env =
     \<lparr>iterdir = (\<lambda>d. if d = ''src'' then Inr [''src/a.txt''] else Inl OSError),
      glob = (\<lambda>d g. Inr []),
      re_compile = (\<lambda>p. if p = ''('' then None else Some (\<lambda>s. True))\<rparr>"

text \<open>
  \<^verbatim>\<open>Path(p).name\<close> on POSIX: the last component of the path, where empty components
  and \<^verbatim>\<open>.\<close> components do not count; empty when there is none.
\<close>

definition path_name :: "string \<Rightarrow> string" where
  "path_name p =
     (let parts = filter (\<lambda>s. s \<noteq> [] \<and> s \<noteq> ''.'') (py_split CHR ''/'' p)
      in if parts = [] then [] else last parts)"

text \<open>
  \<^verbatim>\<open>upload_file\<close>. \<^verbatim>\<open>SetContentFile\<close> opens the local path before anything is
  sent: \<open>opens p\<close> is the exception that opening \<open>p\<close> raises on the worker's machine
  (a missing path, a directory), \<open>None\<close> when \<open>p\<close> can be read. \<open>content\<close> records
  the local file whose bytes were sent.
\<close>

definition uploaded :: "nat \<Rightarrow> string \<Rightarrow> file_id \<Rightarrow> string \<Rightarrow> gfile" where
  "uploaded n name p local_file =
     \<lparr>fid = Fid n, title = name, parent = p, is_folder = False, trashed = False,
      content = Some local_file\<rparr>"

definition upload_file ::
  "(string \<Rightarrow> pyerr option) \<Rightarrow> drive \<Rightarrow> string \<Rightarrow> file_id \<Rightarrow> pyerr + drive" where
  "upload_file opens st local_file dst_folder_id =
     (case opens local_file of
        Some e \<Rightarrow> Inl e
      | None \<Rightarrow>
          Inr (st\<lparr>files := files st @
                    [uploaded (next_id st) (path_name local_file) dst_folder_id local_file],
                  next_id := Suc (next_id st)\<rparr>))"

text \<open>A machine on which \<^verbatim>\<open>src/sub\<close> is a directory and every other path a file.\<close>

definition sub_is_directory :: "string \<Rightarrow> pyerr option" where
  "sub_is_directory p = (if p = ''src/sub'' then Some IsADirectoryError else None)"

section \<open>The work queue\<close>

text \<open>
  The Redis database maps a key to a set of strings, kept here as a list of its members
  without repetition; a key that was never written holds the empty set. \<^verbatim>\<open>SPOP\<close>
  removes and returns a member of the store's choosing, which is the argument \<open>pick\<close>.
\<close>

type_synonym redis = "string \<Rightarrow> string list"

definition sadd :: "string \<Rightarrow> string \<Rightarrow> redis \<Rightarrow> redis" where
  "sadd key member r = (if member \<in> set (r key) then r else r(key := r key @ [member]))"

definition spop :: "nat \<Rightarrow> string \<Rightarrow> redis \<Rightarrow> string option \<times> redis" where
  "spop pick key r =
     (if r key = [] then (None, r)
      else (Some (r key ! (pick mod length (r key))),
            r(key := take (pick mod length (r key)) (r key) @
                     drop (Suc (pick mod length (r key))) (r key))))"

definition scard :: "string \<Rightarrow> redis \<Rightarrow> nat" where
  "scard key r = length (r key)"

text \<open>
  \<^verbatim>\<open>set(local_files).difference(other)\<close> for a list of \<^verbatim>\<open>Path\<close> objects: every
  element of \<open>other\<close> is hashed, and the paths equal to none of them stay.
\<close>

definition set_difference :: "string list \<Rightarrow> pyobj list \<Rightarrow> pyerr + string list" where
  "set_difference local_files other =
     (if list_all hashable other
      then Inr (filter (\<lambda>p. PathObj p \<notin> set other) (remdups local_files))
      else Inl TypeError)"

text \<open>
  The listing of line 151 is outside any \<^verbatim>\<open>try\<close>. A \<^verbatim>\<open>None\<close> folder identifier
  would be sent as the parent \<^verbatim>\<open>'None'\<close>, which no file has.
\<close>

definition list_existing :: "drive \<Rightarrow> file_id option \<Rightarrow> pyerr + gfile list" where
  "list_existing st dst_folder_id =
     (case dst_folder_id of
        None \<Rightarrow> Inl (HttpError ''File not found: None'')
      | Some i \<Rightarrow>
          (case ListFile st i of Inl message \<Rightarrow> Inl (HttpError message) | Inr fl \<Rightarrow> Inr fl))"

definition cache_upload_files ::
  "drive \<Rightarrow> redis \<Rightarrow> string list \<Rightarrow> string \<Rightarrow> bool \<Rightarrow> string \<Rightarrow> pyerr + (drive \<times> redis)" where
  "cache_upload_files st r local_files dst_dir overwrite_existing key =
     (if \<not> overwrite_existing then
        (case get_folder_id st dst_dir of
           Inl e \<Rightarrow> Inl e
         | Inr (dst_folder_id, st') \<Rightarrow>
             (case list_existing st' dst_folder_id of
                Inl e \<Rightarrow> Inl e
              | Inr existing_files \<Rightarrow>
                  (case set_difference local_files (map DriveFile existing_files) of
                     Inl e \<Rightarrow> Inl e
                   | Inr remaining \<Rightarrow>
                       Inr (st', foldl (\<lambda>r' f. sadd key f r') r remaining))))
      else Inr (st, foldl (\<lambda>r' f. sadd key f r') r local_files))"

text \<open>A destination folder \<^verbatim>\<open>dst\<close> that already holds a file \<^verbatim>\<open>x.txt\<close>.\<close>

definition dedup_drive :: drive where
  "dedup_drive =
     \<lparr>files = [folder 0 ''dst'' Root, uploaded 1 ''x.txt'' (Fid 0) ''old/x.txt''],
      next_id = 2, list_error = Map.empty\<rparr>"

section \<open>Workers\<close>

text \<open>
  Any number of processes run \<^verbatim>\<open>upload_files\<close> against one queue and one drive. A
  process is where it stands in that function: before \<^verbatim>\<open>get_folder_id\<close>, at the top
  of the \<^verbatim>\<open>while\<close> loop with its folder identifier and its counter, between
  \<^verbatim>\<open>spop\<close> and \<^verbatim>\<open>upload_file\<close> with the item it popped, returned, or ended by an
  exception. The progress message every 50 uploads only reads the queue and is left out.
  The folder identifier is kept as \<^verbatim>\<open>get_folder_id\<close> returned it; were it
  \<^verbatim>\<open>None\<close>, the upload would name a parent that no file has. An exception in
  \<^verbatim>\<open>upload_file\<close> is not caught and ends the worker, the popped item with it.
\<close>

datatype worker =
    Starting
  | Polling "file_id option" nat
  | Holding "file_id option" nat string
  | Returned
  | Raised pyerr

text \<open>
  \<open>replies\<close> is the history of the queue: every \<^verbatim>\<open>spop\<close> call so far, in the order
  the store served them, with the worker that called and what it received.
  \<open>local_opens w\<close> is the file system of worker \<open>w\<close>, as \<^const>\<open>upload_file\<close> sees it.
\<close>

record system =
  remote :: drive
  queue :: redis
  local_opens :: "nat \<Rightarrow> string \<Rightarrow> pyerr option"
  workers :: "nat \<Rightarrow> worker"
  replies :: "(nat \<times> string option) list"

text \<open>
  One step of worker \<open>w\<close>: the store serves one request at a time, so a step holds at
  most one request. \<open>pick\<close> is the store's choice should the step be an \<^verbatim>\<open>spop\<close>.
\<close>

definition upload_files_step :: "string \<Rightarrow> string \<Rightarrow> nat \<Rightarrow> nat \<Rightarrow> system \<Rightarrow> system" where
  "upload_files_step dst_dir key w pick s =
     (case workers s w of
        Starting \<Rightarrow>
          (case get_folder_id (remote s) dst_dir of
             Inl e \<Rightarrow> s\<lparr>workers := (workers s)(w := Raised e)\<rparr>
           | Inr (dst_dir_id, st') \<Rightarrow>
               s\<lparr>remote := st', workers := (workers s)(w := Polling dst_dir_id 0)\<rparr>)
      | Polling dst_dir_id count' \<Rightarrow>
          (case spop pick key (queue s) of
             (None, r) \<Rightarrow>
               s\<lparr>workers := (workers s)(w := Returned), replies := replies s @ [(w, None)]\<rparr>
           | (Some local_file, r) \<Rightarrow>
               s\<lparr>queue := r,
                 workers := (workers s)(w := Holding dst_dir_id count' local_file),
                 replies := replies s @ [(w, Some local_file)]\<rparr>)
      | Holding dst_dir_id count' local_file \<Rightarrow>
          (case dst_dir_id of
             None \<Rightarrow>
               s\<lparr>workers := (workers s)(w := Raised
                   (case local_opens s w local_file of
                      Some e \<Rightarrow> e
                    | None \<Rightarrow> HttpError ''File not found: None''))\<rparr>
           | Some i \<Rightarrow>
               (case upload_file (local_opens s w) (remote s) local_file i of
                  Inl e \<Rightarrow> s\<lparr>workers := (workers s)(w := Raised e)\<rparr>
                | Inr st' \<Rightarrow>
                    s\<lparr>remote := st',
                      workers := (workers s)(w := Polling dst_dir_id (count' + 1))\<rparr>))
      | Returned \<Rightarrow> s
      | Raised e \<Rightarrow> s)"

text \<open>A schedule names, step by step, the worker that moves and the store's choice.\<close>

definition run :: "string \<Rightarrow> string \<Rightarrow> (nat \<times> nat) list \<Rightarrow> system \<Rightarrow> system" where
  "run dst_dir key schedule s =
     foldl (\<lambda>s' (w, pick). upload_files_step dst_dir key w pick s') s schedule"

text \<open>The items handed out so far, in the order they were popped.\<close>

definition taken :: "system \<Rightarrow> string list" where
  "taken s = List.map_filter snd (replies s)"

text \<open>
  All workers about to start, on an empty drive, with the given members under \<open>key\<close>, every
  one of them a file that each worker can read.
\<close>

definition seeded :: "string \<Rightarrow> string list \<Rightarrow> system" where
  "seeded key members =
     \<lparr>remote = empty_drive 0, queue = (\<lambda>k. if k = key then members else []),
      local_opens = (\<lambda>w p. None), workers = (\<lambda>w. Starting), replies = []\<rparr>"

text \<open>
  What every reachable state keeps: each member seeded under \<open>key\<close> is either still queued
  or was handed out once, and the store answers with members first and, once it has answered
  that the set is empty, only with that answer, which it gives on an empty set alone.
\<close>

definition queue_inv :: "string \<Rightarrow> string list \<Rightarrow> system \<Rightarrow> bool" where
  "queue_inv key members s \<longleftrightarrow>
     mset (taken s) + mset (queue s key) = mset members
     \<and> (\<exists>m. map snd (replies s) = map Some (taken s) @ replicate m None
            \<and> (0 < m \<longrightarrow> queue s key = []))"

section \<open>Tree creation\<close>

lemma dst_segments_ABC: "dst_segments ''A/B/C'' = [''A'', ''B'', ''C'']"
  by (simp add: dst_segments_def py_strip_def)

lemma dst_segments_ABD: "dst_segments ''A/B/D'' = [''A'', ''B'', ''D'']"
  by (simp add: dst_segments_def py_strip_def)

lemma ListFile_fresh:
  assumes "list_error st = Map.empty"
    and "\<forall>f\<in>set (files st). \<not> trashed f \<longrightarrow>
           parent f \<noteq> Root \<and> (\<forall>k\<ge>next_id st. parent f \<noteq> Fid k)"
  shows "filter (\<lambda>f. parent f = Root \<and> \<not> trashed f) (files st) = []"
    and "k \<ge> next_id st \<Longrightarrow> filter (\<lambda>f. parent f = Fid k \<and> \<not> trashed f) (files st) = []"
  using assms by (auto simp: filter_empty_conv)

text \<open>
  Claim C5. Take a drive whose root has no untrashed child, whose listings do not fail, and
  where no untrashed file names an identifier not yet assigned as its parent. Resolving
  \<^verbatim>\<open>A/B/C\<close> creates exactly the three folders A under the root, B under A and C under
  B, and returns C's identifier; resolving \<^verbatim>\<open>A/B/D\<close> on the resulting drive adds
  only D under the B that is there.
\<close>

theorem tree_creation:
  assumes "list_error st = Map.empty"
    and "\<forall>f\<in>set (files st). \<not> trashed f \<longrightarrow>
           parent f \<noteq> Root \<and> (\<forall>k\<ge>next_id st. parent f \<noteq> Fid k)"
  shows "get_folder_id st ''A/B/C'' =
     Inr (Some (Fid (next_id st + 2)),
          st\<lparr>files := files st @
                 [folder (next_id st) ''A'' Root,
                  folder (next_id st + 1) ''B'' (Fid (next_id st)),
                  folder (next_id st + 2) ''C'' (Fid (next_id st + 1))],
             next_id := next_id st + 3\<rparr>)
   \<and> get_folder_id
       (st\<lparr>files := files st @
                 [folder (next_id st) ''A'' Root,
                  folder (next_id st + 1) ''B'' (Fid (next_id st)),
                  folder (next_id st + 2) ''C'' (Fid (next_id st + 1))],
           next_id := next_id st + 3\<rparr>) ''A/B/D'' =
     Inr (Some (Fid (next_id st + 3)),
          st\<lparr>files := files st @
                 [folder (next_id st) ''A'' Root,
                  folder (next_id st + 1) ''B'' (Fid (next_id st)),
                  folder (next_id st + 2) ''C'' (Fid (next_id st + 1)),
                  folder (next_id st + 3) ''D'' (Fid (next_id st + 1))],
             next_id := next_id st + 4\<rparr>)"
  using ListFile_fresh[OF assms]
  by (simp add: get_folder_id_def dst_segments_ABC dst_segments_ABD assms(1)
      ListFile_def create_gdrive_folder_def new_folder_def folder_def)

theorem tree_creation_witness:
  "get_folder_id (empty_drive 0) ''A/B/C'' =
     Inr (Some (Fid 2),
          \<lparr>files = [folder 0 ''A'' Root, folder 1 ''B'' (Fid 0), folder 2 ''C'' (Fid 1)],
           next_id = 3, list_error = Map.empty\<rparr>)
   \<and> get_folder_id
       \<lparr>files = [folder 0 ''A'' Root, folder 1 ''B'' (Fid 0), folder 2 ''C'' (Fid 1)],
        next_id = 3, list_error = Map.empty\<rparr> ''A/B/D'' =
     Inr (Some (Fid 3),
          \<lparr>files = [folder 0 ''A'' Root, folder 1 ''B'' (Fid 0), folder 2 ''C'' (Fid 1),
                    folder 3 ''D'' (Fid 1)],
           next_id = 4, list_error = Map.empty\<rparr>)"
proof -
  have h1: "list_error (empty_drive 0) = Map.empty"
    by (simp add: empty_drive_def)
  have h2: "\<forall>f\<in>set (files (empty_drive 0)). \<not> trashed f \<longrightarrow>
      parent f \<noteq> Root \<and> (\<forall>k\<ge>next_id (empty_drive 0). parent f \<noteq> Fid k)"
    by (simp add: empty_drive_def)
  have e: "empty_drive 0\<lparr>files := files (empty_drive 0) @ fs, next_id := m\<rparr> =
      \<lparr>files = fs, next_id = m, list_error = Map.empty\<rparr>" for fs m
    by (simp add: empty_drive_def)
  have n: "next_id (empty_drive 0) = 0"
    by (simp add: empty_drive_def)
  from tree_creation [OF h1 h2] show ?thesis
    unfolding e n by (simp add: numeral_2_eq_2 numeral_3_eq_3)
qed

section \<open>Resolving the same path again\<close>






lemma py_split_not_Nil: "py_split c s \<noteq> []"
  by (induction s) auto



section \<open>Which folder is returned\<close>

text \<open>
  Claim C1. The walk stops at the first segment whose name is the name of the last
  segment, not at the last segment: for \<^verbatim>\<open>A/B/A\<close> on a drive without files it
  creates the folder A under the root and returns that folder; B and the inner A are
  never created.
\<close>

theorem get_folder_id_returns_early:
  "get_folder_id (empty_drive n) ''A/B/A'' =
     Inr (Some (Fid n),
          \<lparr>files = [folder n ''A'' Root], next_id = Suc n, list_error = Map.empty\<rparr>)"
  by (simp add: get_folder_id_def dst_segments_def py_strip_def empty_drive_def
      ListFile_def create_gdrive_folder_def new_folder_def folder_def)

section \<open>Listing failures\<close>

lemma search_file_tree_listing_fails:
  assumes "ListFile st parent_folder_id = Inl body"
  shows "search_file_tree dst st parent_folder_id (folder_name # folder_path) =
     Inl (MalformedNode body)"
  using assms by (simp add: literal_eval_message_def)

text \<open>
  Claim C3. A failed listing ends the resolution in the handler itself, at line 86, with
  the \<^verbatim>\<open>ValueError\<close> of \<^verbatim>\<open>ast.literal_eval\<close> on the response body, whatever the
  body says. When the body reports \<^verbatim>\<open>File not found\<close> the error does not name the
  segment; when it reports \<^verbatim>\<open>Rate Limit Exceeded\<close> the resolver does not go on with
  an empty child list. In both cases no folder is created. Here the listing of the root
  fails while \<^verbatim>\<open>A\<close> is resolved.
\<close>

theorem listing_failure_raises:
  \<open>get_folder_id
     \<lparr>files = [], next_id = n,
      list_error = [Root \<mapsto> ''{"error": {"code": 403, "message": "Rate Limit Exceeded"}}'']\<rparr>
     ''A'' =
     Inl (MalformedNode ''{"error": {"code": 403, "message": "Rate Limit Exceeded"}}'')
   \<and> get_folder_id
     \<lparr>files = [], next_id = n,
      list_error = [Root \<mapsto> ''{"error": {"code": 404, "message": "File not found: root"}}'']\<rparr>
     ''A'' =
     Inl (MalformedNode ''{"error": {"code": 404, "message": "File not found: root"}}'')\<close>
  by (simp add: get_folder_id_def dst_segments_def py_strip_def ListFile_def
      literal_eval_message_def)

section \<open>One segment of the walk\<close>

text \<open>
  The resolver never reads the type of a listed child: resolving \<^verbatim>\<open>A/B\<close> on
  \<^const>\<open>plain_file_drive\<close> descends into the ordinary file A and creates B under it.
\<close>

theorem descends_into_plain_file:
  "is_folder (hd (files plain_file_drive)) = False
   \<and> get_folder_id plain_file_drive ''A/B'' =
       Inr (Some (Fid 1),
            \<lparr>files = files plain_file_drive @ [folder 1 ''B'' (Fid 0)],
             next_id = 2, list_error = Map.empty\<rparr>)"
  by (simp add: get_folder_id_def dst_segments_def py_strip_def plain_file_drive_def
      ListFile_def create_gdrive_folder_def new_folder_def folder_def)

text \<open>
  Claim C4, amended. At a segment whose name is the destination name exactly when it is
  the last segment, the resolver takes the first listed child of the current folder whose
  title is the segment, whatever its type, and creates nothing; when no listed child has
  that title it creates a folder with that name under the current folder and takes the new
  folder. It returns what it took at the last segment and descends into it otherwise.
\<close>

theorem search_file_tree_segment:
  assumes "ListFile st parent_folder_id = Inr file_list"
    and "(folder_name = dst) = (folder_path = [])"
  shows "search_file_tree dst st parent_folder_id (folder_name # folder_path) =
     (case List.find (\<lambda>f. title f = folder_name) file_list of
        Some f \<Rightarrow>
          (if folder_path = [] then Inr (Some (fid f), st)
           else search_file_tree dst st (fid f) folder_path)
      | None \<Rightarrow>
          (if folder_path = []
           then Inr (Some (Fid (next_id st)),
                  st\<lparr>files := files st @ [folder (next_id st) folder_name parent_folder_id],
                     next_id := Suc (next_id st)\<rparr>)
           else search_file_tree dst
                  (st\<lparr>files := files st @ [folder (next_id st) folder_name parent_folder_id],
                      next_id := Suc (next_id st)\<rparr>)
                  (Fid (next_id st)) folder_path))"
  using assms
  by (simp add: create_gdrive_folder_def new_folder_def folder_def split: option.splits)

theorem search_file_tree_segment_witness:
  "ListFile plain_file_drive Root = Inr (files plain_file_drive)
   \<and> ((''A'' = ''B'') = ([''B''] = []))
   \<and> search_file_tree ''B'' plain_file_drive Root [''A'', ''B''] =
       search_file_tree ''B'' plain_file_drive (Fid 0) [''B'']"
proof -
  have L: "ListFile plain_file_drive Root = Inr (files plain_file_drive)"
    by (simp add: ListFile_def plain_file_drive_def)
  have N: "(''A'' = ''B'') = ([''B''] = [])" by simp
  from search_file_tree_segment [OF L N]
  have "search_file_tree ''B'' plain_file_drive Root [''A'', ''B''] =
       search_file_tree ''B'' plain_file_drive (Fid 0) [''B'']"
    by (simp add: plain_file_drive_def)
  with L N show ?thesis by blast
qed

section \<open>Parsing the destination\<close>

lemma py_split_append:
  "py_split c (xs @ c # ys) = py_split c xs @ py_split c ys"
  by (induction xs) (auto simp: py_split_not_Nil)

lemma py_split_no_sep: "c \<notin> set s \<Longrightarrow> py_split c s = [s]"
  by (induction s) auto

lemma py_split_pieces: "seg \<in> set (py_split c s) \<Longrightarrow> c \<notin> set seg"
proof (induction s arbitrary: seg)
  case Nil
  then show ?case by simp
next
  case (Cons x xs)
  have mem: "hd (py_split c xs) \<in> set (py_split c xs)"
    by (simp add: py_split_not_Nil)
  have tl: "set (tl (py_split c xs)) \<subseteq> set (py_split c xs)"
    by (cases "py_split c xs") auto
  from Cons.prems show ?case
    using Cons.IH mem tl by (auto split: if_splits)
qed

lemma py_join_Cons: "ps \<noteq> [] \<Longrightarrow> py_join c (p # ps) = p @ c # py_join c ps"
  by (cases ps) auto

lemma py_join_split: "py_join c (py_split c s) = s"
proof (induction s)
  case Nil
  then show ?case by simp
next
  case (Cons x xs)
  obtain p ps where r: "py_split c xs = p # ps"
    by (cases "py_split c xs") (auto simp: py_split_not_Nil)
  show ?case
  proof (cases "x = c")
    case True
    with Cons show ?thesis by (simp add: py_join_Cons py_split_not_Nil)
  next
    case False
    with Cons r show ?thesis by (cases ps) auto
  qed
qed

lemma empty_piece_tl:
  "[] \<in> set (tl (py_split c s)) \<longleftrightarrow> (s \<noteq> [] \<and> last s = c) \<or> sublist [c, c] s"
proof (induction s)
  case Nil
  then show ?case by simp
next
  case (Cons x xs)
  have E: "[] \<in> set (py_split c xs) \<longleftrightarrow> xs = [] \<or> hd xs = c \<or> [] \<in> set (tl (py_split c xs))"
    by (cases xs) auto
  show ?case
  proof (cases "x = c")
    case True
    then show ?thesis
      using Cons E by (cases xs) (auto simp: sublist_Cons_right)
  next
    case False
    then show ?thesis
      using Cons by (cases xs) (auto simp: sublist_Cons_right)
  qed
qed

lemma empty_piece:
  "[] \<in> set (py_split c s) \<longleftrightarrow> s = [] \<or> hd s = c \<or> last s = c \<or> sublist [c, c] s"
proof (cases s)
  case Nil
  then show ?thesis by simp
next
  case (Cons x xs)
  show ?thesis
  proof (cases "x = c")
    case True
    with Cons show ?thesis by simp
  next
    case False
    have "[] \<in> set (py_split c s) \<longleftrightarrow> [] \<in> set (tl (py_split c s))"
      using Cons False by simp
    also have "\<dots> \<longleftrightarrow> (s \<noteq> [] \<and> last s = c) \<or> sublist [c, c] s"
      by (rule empty_piece_tl)
    finally show ?thesis using Cons False by auto
  qed
qed

lemma dropWhile_rev_ends:
  assumes "d = [] \<or> hd d \<noteq> c" and "dropWhile (\<lambda>x. x = c) (rev d) \<noteq> []"
  shows "last (dropWhile (\<lambda>x. x = c) (rev d)) \<noteq> c
     \<and> hd (dropWhile (\<lambda>x. x = c) (rev d)) \<noteq> c"
proof -
  let ?e = "dropWhile (\<lambda>x. x = c) (rev d)"
  from assms(2) have d: "d \<noteq> []" by auto
  have hd_e: "hd ?e \<noteq> c" using assms(2) hd_dropWhile by blast
  have "rev d = takeWhile (\<lambda>x. x = c) (rev d) @ ?e" by simp
  then have "last (rev d) = last ?e" using assms(2) by (metis last_appendR)
  then have "last ?e = hd d" using d by (simp add: last_rev)
  with hd_e assms(1) d show ?thesis by simp
qed

lemma py_strip_ends:
  assumes "py_strip c s \<noteq> []"
  shows "hd (py_strip c s) \<noteq> c \<and> last (py_strip c s) \<noteq> c"
proof -
  let ?d = "dropWhile (\<lambda>x. x = c) s"
  have "?d = [] \<or> hd ?d \<noteq> c" using hd_dropWhile by blast
  moreover from assms have "dropWhile (\<lambda>x. x = c) (rev ?d) \<noteq> []"
    by (simp add: py_strip_def)
  ultimately show ?thesis
    using dropWhile_rev_ends [of ?d c] by (simp add: py_strip_def hd_rev last_rev)
qed

text \<open>
  The destination \<^verbatim>\<open>a//b\<close> is neither empty nor a bare slash, and its parsed sequence
  has an empty segment in the middle.
\<close>

theorem dst_segments_empty_segment: "dst_segments ''a//b'' = [''a'', [], ''b'']"
  by (simp add: dst_segments_def py_strip_def)

text \<open>
  Claim C8, amended. Parsing strips the leading and trailing slashes and cuts what is left
  at every slash: the sequence of segments is never empty, no segment holds a slash, and
  joining the segments with slashes gives the stripped string back. A segment is empty
  exactly when the stripped string is empty or has two slashes in a row.
\<close>

theorem dst_segments_shape:
  "dst_segments folder_path \<noteq> []
   \<and> (\<forall>seg \<in> set (dst_segments folder_path). CHR ''/'' \<notin> set seg)
   \<and> py_join CHR ''/'' (dst_segments folder_path) = py_strip CHR ''/'' folder_path
   \<and> ([] \<in> set (dst_segments folder_path) \<longleftrightarrow>
        py_strip CHR ''/'' folder_path = [] \<or> sublist ''//'' (py_strip CHR ''/'' folder_path))"
  using py_strip_ends [of "CHR ''/''" folder_path]
  by (auto simp: dst_segments_def py_split_not_Nil py_join_split empty_piece
      dest: py_split_pieces)

theorem dst_segments_shape_witness:
  "dst_segments ''/backup/2024/'' \<noteq> []
   \<and> CHR ''/'' \<notin> set (hd (dst_segments ''/backup/2024/''))
   \<and> py_join CHR ''/'' (dst_segments ''/backup/2024/'') = ''backup/2024''
   \<and> [] \<notin> set (dst_segments ''/backup/2024/'')"
  using dst_segments_shape [of "''/backup/2024/''"]
  by (simp add: dst_segments_def py_strip_def)

section \<open>The regular expression filter\<close>

lemma keep_if_path:
  "compile p = Some m \<Longrightarrow> fs \<noteq> [] \<Longrightarrow>
     keep_if (\<lambda>f. re_search compile p (PathObj f)) fs = Inl TypeError"
  by (cases fs) (auto simp: re_search_def)

lemma keep_if_path_raises:
  "fs \<noteq> [] \<Longrightarrow> \<exists>e. keep_if (\<lambda>f. re_search compile p (PathObj f)) fs = Inl e"
  by (cases fs) (auto simp: re_search_def split: option.splits)

lemma regex_branch_raises:
  assumes "\<exists>d\<in>set ds. iterdir env d \<noteq> Inr []"
  shows "\<exists>e. for_dirs (\<lambda>d. case iterdir env d of Inl e \<Rightarrow> Inl e
            | Inr fs \<Rightarrow> keep_if (\<lambda>f. re_search (re_compile env) p (PathObj f)) fs) ds = Inl e"
  using assms
proof (induction ds)
  case Nil
  then show ?case by simp
next
  case (Cons d ds)
  show ?case
  proof (cases "iterdir env d")
    case (Inl e)
    then show ?thesis by simp
  next
    case (Inr fs)
    show ?thesis
    proof (cases "fs = []")
      case True
      with Inr Cons show ?thesis by (auto split: sum.splits)
    next
      case False
      from keep_if_path_raises[OF this, of "re_compile env" p] Inr show ?thesis
        by (auto split: sum.splits)
    qed
  qed
qed

lemma regex_branch_TypeError:
  assumes "re_compile env p = Some m"
    and "\<forall>d\<in>set ds. \<exists>es. iterdir env d = Inr es"
    and "\<exists>d\<in>set ds. iterdir env d \<noteq> Inr []"
  shows "for_dirs (\<lambda>d. case iterdir env d of Inl e \<Rightarrow> Inl e
            | Inr fs \<Rightarrow> keep_if (\<lambda>f. re_search (re_compile env) p (PathObj f)) fs) ds = Inl TypeError"
  using assms(2,3)
proof (induction ds)
  case Nil
  then show ?case by simp
next
  case (Cons d ds)
  from Cons.prems(1) obtain fs where fs: "iterdir env d = Inr fs" by auto
  show ?case
  proof (cases "fs = []")
    case True
    with fs Cons show ?thesis by (auto split: sum.splits)
  next
    case False
    with keep_if_path[of "re_compile env" p m fs] assms(1) fs show ?thesis by simp
  qed
qed

text \<open>
  With the pattern \<^verbatim>\<open>(\<close>, which does not compile, the call on a directory with one
  entry ends with the compiler's error, not with \<^verbatim>\<open>TypeError\<close>.
\<close>

theorem get_local_files_bad_pattern:
  "get_local_files one_entry_env (OneDir ''src'') None (Some ''('') = Inl ReError"
  by (simp add: get_local_files_def one_entry_env_def re_search_def)

text \<open>
  Claim C9, amended. When a regular expression is given and one of the directories has an
  entry, \<^verbatim>\<open>get_local_files\<close> never returns normally. When moreover the pattern
  compiles, every directory can be listed and the glob filter, if one is given, does not
  raise, the exception is the \<^verbatim>\<open>TypeError\<close> of \<^verbatim>\<open>re.search\<close> applied to a
  \<^verbatim>\<open>Path\<close> object.
\<close>

theorem get_local_files_regex_raises:
  assumes "\<exists>d\<in>set (dir_list dirs_in). iterdir env d \<noteq> Inr []"
  shows "(\<exists>e. get_local_files env dirs_in glob_pattern (Some p) = Inl e)
    \<and> (re_compile env p \<noteq> None
        \<and> (\<forall>d\<in>set (dir_list dirs_in). \<exists>es. iterdir env d = Inr es)
        \<and> (\<forall>g. glob_pattern = Some g \<longrightarrow>
              (\<exists>fs. for_dirs (\<lambda>d. glob env d g) (dir_list dirs_in) = Inr fs))
       \<longrightarrow> get_local_files env dirs_in glob_pattern (Some p) = Inl TypeError)"
proof (intro conjI impI)
  from regex_branch_raises[OF assms, of p]
  show "\<exists>e. get_local_files env dirs_in glob_pattern (Some p) = Inl e"
    by (auto simp: get_local_files_def Let_def split: sum.splits option.splits)
next
  assume a: "re_compile env p \<noteq> None
        \<and> (\<forall>d\<in>set (dir_list dirs_in). \<exists>es. iterdir env d = Inr es)
        \<and> (\<forall>g. glob_pattern = Some g \<longrightarrow>
              (\<exists>fs. for_dirs (\<lambda>d. glob env d g) (dir_list dirs_in) = Inr fs))"
  then obtain m where m: "re_compile env p = Some m" by auto
  from a have ex: "\<forall>d\<in>set (dir_list dirs_in). \<exists>es. iterdir env d = Inr es" by simp
  from regex_branch_TypeError[OF m ex assms] a
  show "get_local_files env dirs_in glob_pattern (Some p) = Inl TypeError"
    by (auto simp: get_local_files_def Let_def split: sum.splits option.splits)
qed

theorem get_local_files_regex_raises_witness:
  "iterdir one_entry_env ''src'' \<noteq> Inr []
   \<and> re_compile one_entry_env ''.*'' \<noteq> None
   \<and> get_local_files one_entry_env (OneDir ''src'') None (Some ''.*'') = Inl TypeError"
  using get_local_files_regex_raises [of "OneDir ''src''" one_entry_env None "''.*''"]
  by (simp add: one_entry_env_def)

section \<open>The title of an uploaded file\<close>

lemma last_filter:
  "xs \<noteq> [] \<Longrightarrow> P (last xs) \<Longrightarrow> last (filter P xs) = last xs"
  by (cases xs rule: rev_cases) auto

lemma path_name_basename:
  assumes "name \<noteq> []" "name \<noteq> ''.''" "CHR ''/'' \<notin> set name"
  shows "path_name (dir @ CHR ''/'' # name) = name"
proof -
  have "py_split CHR ''/'' (dir @ CHR ''/'' # name) = py_split CHR ''/'' dir @ [name]"
    using assms(3) by (simp add: py_split_append py_split_no_sep)
  then have "filter (\<lambda>s. s \<noteq> [] \<and> s \<noteq> ''.'') (py_split CHR ''/'' (dir @ CHR ''/'' # name))
      = filter (\<lambda>s. s \<noteq> [] \<and> s \<noteq> ''.'') (py_split CHR ''/'' dir) @ [name]"
    using assms(1,2) by simp
  then show ?thesis by (simp add: path_name_def)
qed

lemma path_name_bare:
  assumes "name \<noteq> []" "name \<noteq> ''.''" "CHR ''/'' \<notin> set name"
  shows "path_name name = name"
  using assms by (simp add: path_name_def py_split_no_sep)

text \<open>
  An item that is a directory on the worker's machine: \<^verbatim>\<open>upload_file\<close> raises when it
  opens the path, and the drive gets no file and so no title.
\<close>

theorem upload_file_directory:
  "upload_file sub_is_directory (empty_drive 0) ''src/sub'' (Fid 0) = Inl IsADirectoryError"
  by (simp add: upload_file_def sub_is_directory_def)

text \<open>
  Claim C10, amended. For an item that the worker can open, \<^verbatim>\<open>upload_file\<close> adds one
  file to the destination folder, titled with the name of the local path; for an item it
  cannot open it raises and the drive stays as it is. The name of \<^verbatim>\<open>dir/name\<close> is
  \<open>name\<close>, so two readable local paths that differ only in the directory are uploaded
  as two files of the same title in the destination folder.
\<close>

theorem upload_file_title:
  "(opens local_file = None \<longrightarrow>
      upload_file opens st local_file dst =
        Inr (st\<lparr>files := files st @ [uploaded (next_id st) (path_name local_file) dst local_file],
                next_id := Suc (next_id st)\<rparr>))
   \<and> (opens local_file = Some e \<longrightarrow> upload_file opens st local_file dst = Inl e)
   \<and> (name \<noteq> [] \<and> name \<noteq> ''.'' \<and> CHR ''/'' \<notin> set name \<longrightarrow>
        path_name name = name \<and> path_name (dir1 @ ''/'' @ name) = name)
   \<and> (name \<noteq> [] \<and> name \<noteq> ''.'' \<and> CHR ''/'' \<notin> set name
        \<and> opens (dir1 @ ''/'' @ name) = None \<and> opens (dir2 @ ''/'' @ name) = None \<longrightarrow>
        (\<exists>st1 st2.
           upload_file opens st (dir1 @ ''/'' @ name) dst = Inr st1
           \<and> upload_file opens st1 (dir2 @ ''/'' @ name) dst = Inr st2
           \<and> files st2 =
               files st @ [uploaded (next_id st) name dst (dir1 @ ''/'' @ name),
                           uploaded (Suc (next_id st)) name dst (dir2 @ ''/'' @ name)]))"
  by (simp add: upload_file_def path_name_basename path_name_bare)

theorem upload_file_title_witness:
  "sub_is_directory ''a/x.txt'' = None
   \<and> sub_is_directory ''b/x.txt'' = None
   \<and> sub_is_directory ''src/sub'' = Some IsADirectoryError
   \<and> upload_file sub_is_directory (empty_drive 0) ''a/x.txt'' (Fid 7) =
       Inr \<lparr>files = [uploaded 0 ''x.txt'' (Fid 7) ''a/x.txt''], next_id = 1,
            list_error = Map.empty\<rparr>
   \<and> upload_file sub_is_directory
         \<lparr>files = [uploaded 0 ''x.txt'' (Fid 7) ''a/x.txt''], next_id = 1,
          list_error = Map.empty\<rparr> ''b/x.txt'' (Fid 7) =
       Inr \<lparr>files = [uploaded 0 ''x.txt'' (Fid 7) ''a/x.txt'',
                     uploaded 1 ''x.txt'' (Fid 7) ''b/x.txt''],
            next_id = 2, list_error = Map.empty\<rparr>
   \<and> upload_file sub_is_directory (empty_drive 0) ''src/sub'' (Fid 7) = Inl IsADirectoryError"
proof -
  have o: "sub_is_directory ''a/x.txt'' = None" "sub_is_directory ''b/x.txt'' = None"
    "sub_is_directory ''src/sub'' = Some IsADirectoryError"
    by (simp_all add: sub_is_directory_def)
  have n: "''x.txt'' \<noteq> [] \<and> ''x.txt'' \<noteq> ''.'' \<and> CHR ''/'' \<notin> set ''x.txt''"
    by simp
  note a = upload_file_title [where opens = sub_is_directory and local_file = "''a/x.txt''"
      and st = "empty_drive 0" and dst = "Fid 7" and name = "''x.txt''" and ?dir1.0 = "''a''"]
  note b = upload_file_title [where opens = sub_is_directory and local_file = "''b/x.txt''"
      and st = "\<lparr>files = [uploaded 0 ''x.txt'' (Fid 7) ''a/x.txt''], next_id = 1,
          list_error = Map.empty\<rparr>" and dst = "Fid 7" and name = "''x.txt''"
      and ?dir1.0 = "''b''"]
  note c = upload_file_title [where opens = sub_is_directory and local_file = "''src/sub''"
      and e = IsADirectoryError and st = "empty_drive 0" and dst = "Fid 7"]
  from a o n have pa: "path_name ''a/x.txt'' = ''x.txt''" by simp
  from b o n have pb: "path_name ''b/x.txt'' = ''x.txt''" by simp
  from a o pa have 1: "upload_file sub_is_directory (empty_drive 0) ''a/x.txt'' (Fid 7) =
       Inr \<lparr>files = [uploaded 0 ''x.txt'' (Fid 7) ''a/x.txt''], next_id = 1,
            list_error = Map.empty\<rparr>"
    by (simp add: empty_drive_def)
  from b o pb have 2: "upload_file sub_is_directory
         \<lparr>files = [uploaded 0 ''x.txt'' (Fid 7) ''a/x.txt''], next_id = 1,
          list_error = Map.empty\<rparr> ''b/x.txt'' (Fid 7) =
       Inr \<lparr>files = [uploaded 0 ''x.txt'' (Fid 7) ''a/x.txt'',
                     uploaded 1 ''x.txt'' (Fid 7) ''b/x.txt''],
            next_id = 2, list_error = Map.empty\<rparr>"
    by simp
  from c o have 3:
    "upload_file sub_is_directory (empty_drive 0) ''src/sub'' (Fid 7) = Inl IsADirectoryError"
    by simp
  from o 1 2 3 show ?thesis by blast
qed

section \<open>Seeding the queue\<close>

lemma path_never_equals_drive_file:
  "filter (\<lambda>p. PathObj p \<notin> set (map DriveFile existing_files)) ps = ps"
  by (induction ps) auto

lemma set_difference_drive_files:
  "set_difference local_files (map DriveFile existing_files) =
     (if existing_files = [] then Inr (remdups local_files) else Inl TypeError)"
  by (cases existing_files) (simp_all add: set_difference_def path_never_equals_drive_file)

text \<open>
  Claim C2. With \<^verbatim>\<open>overwrite_existing=False\<close>, local files \<^verbatim>\<open>in/x.txt\<close> and
  \<^verbatim>\<open>in/y.txt\<close>, and a destination that holds a file named \<^verbatim>\<open>x.txt\<close>, seeding
  ends with \<^verbatim>\<open>TypeError\<close>: the difference is taken between the local
  \<^verbatim>\<open>Path\<close> objects and the listed drive file objects, not between names, and
  nothing is enqueued.
\<close>

theorem cache_upload_files_no_dedup:
  "cache_upload_files dedup_drive (\<lambda>key. []) [''in/x.txt'', ''in/y.txt''] ''dst'' False
     ''gdrive_upload'' = Inl TypeError"
  by (simp add: cache_upload_files_def get_folder_id_def dst_segments_def py_strip_def
      dedup_drive_def ListFile_def list_existing_def set_difference_def folder_def
      uploaded_def)

section \<open>Taking items from the shared queue\<close>

lemma search_file_tree_not_None:
  "search_file_tree dst st p segs = Inr (r, st') \<Longrightarrow> dst \<in> set segs \<Longrightarrow> r \<noteq> None"
  by (induction segs arbitrary: st p)
     (auto simp: create_gdrive_folder_def literal_eval_message_def
        split: sum.splits option.splits if_splits)

lemma get_folder_id_not_None: "get_folder_id st folder_path \<noteq> Inr (None, st')"
proof
  assume a: "get_folder_id st folder_path = Inr (None, st')"
  have "last (dst_segments folder_path) \<in> set (dst_segments folder_path)"
    by (simp add: dst_segments_def py_split_not_Nil)
  with a search_file_tree_not_None show False
    by (fastforce simp: get_folder_id_def Let_def)
qed

lemma spop_empty: "r key = [] \<Longrightarrow> spop pick key r = (None, r)"
  by (simp add: spop_def)

lemma spop_member:
  assumes "r key \<noteq> []"
  shows "\<exists>x r'. spop pick key r = (Some x, r') \<and> mset (r key) = add_mset x (mset (r' key))"
proof -
  let ?i = "pick mod length (r key)"
  have i: "?i < length (r key)" using assms by simp
  have "r key = take ?i (r key) @ (r key ! ?i) # drop (Suc ?i) (r key)"
    using i by (rule id_take_nth_drop)
  then have "mset (r key) = add_mset (r key ! ?i) (mset (take ?i (r key) @ drop (Suc ?i) (r key)))"
    by (metis mset.simps(2) mset_append union_mset_add_mset_right)
  with assms show ?thesis by (simp add: spop_def)
qed

lemma taken_snoc_Some: "List.map_filter snd (rs @ [(w, Some x)]) = List.map_filter snd rs @ [x]"
  by (simp add: List.map_filter_def)

lemma taken_snoc_None: "List.map_filter snd (rs @ [(w, None)]) = List.map_filter snd rs"
  by (simp add: List.map_filter_def)

lemma step_inv:
  assumes "queue_inv key members s"
  shows "queue_inv key members (upload_files_step dst_dir key w pick s)"
proof (cases "workers s w")
  case Starting
  with assms show ?thesis
    by (auto simp: upload_files_step_def queue_inv_def taken_def split: sum.splits prod.splits)
next
  case (Polling d c)
  from assms obtain m where inv: "mset (taken s) + mset (queue s key) = mset members"
    "map snd (replies s) = map Some (taken s) @ replicate m None"
    "0 < m \<longrightarrow> queue s key = []"
    by (auto simp: queue_inv_def)
  show ?thesis
  proof (cases "queue s key = []")
    case True
    have "map snd (replies s) @ [None] = map Some (taken s) @ replicate (Suc m) None"
      using inv(2) by (simp add: replicate_append_same)
    then have "\<exists>m'. map snd (replies s) @ [None] = map Some (taken s) @ replicate m' None
        \<and> (0 < m' \<longrightarrow> queue s key = [])"
      using True by blast
    with True Polling inv(1) show ?thesis
      by (simp add: upload_files_step_def queue_inv_def taken_def spop_empty taken_snoc_None)
  next
    case False
    with inv(3) have m: "m = 0" by auto
    from spop_member[of "queue s" key pick] False obtain x r'
      where x: "spop pick key (queue s) = (Some x, r')"
        "mset (queue s key) = add_mset x (mset (r' key))"
      by blast
    with Polling inv(1,2) m show ?thesis
      by (auto simp: upload_files_step_def queue_inv_def taken_def taken_snoc_Some)
  qed
next
  case (Holding d c f)
  with assms show ?thesis
    by (auto simp: upload_files_step_def queue_inv_def taken_def
        split: option.splits sum.splits)
next
  case Returned
  with assms show ?thesis by (simp add: upload_files_step_def)
next
  case (Raised e)
  with assms show ?thesis by (simp add: upload_files_step_def)
qed

lemma run_inv:
  "queue_inv key members s \<Longrightarrow> queue_inv key members (run dst_dir key schedule s)"
proof (induction schedule arbitrary: s)
  case Nil
  then show ?case by (simp add: run_def)
next
  case (Cons e schedule)
  obtain w pick where e: "e = (w, pick)" by (cases e)
  from Cons.IH[OF step_inv[OF Cons.prems, of dst_dir w pick]] e
  show ?case by (simp add: run_def)
qed

lemma inv_start:
  assumes "replies s = []"
  shows "queue_inv key (queue s key) s"
  using assms by (simp add: queue_inv_def taken_def List.map_filter_def)

lemma sadd_distinct: "distinct (r key) \<Longrightarrow> distinct (sadd key member r key)"
  by (simp add: sadd_def)

lemma sadd_all_distinct:
  "distinct (r key) \<Longrightarrow> distinct (foldl (\<lambda>r' f. sadd key f r') r fs key)"
  by (induction fs arbitrary: r) (simp_all add: sadd_distinct)

text \<open>
  Claim C7. Let any number of workers run \<^verbatim>\<open>upload_files\<close> on a queue of \<open>N\<close> distinct
  items, in any interleaving and with any choices by the store, each \<^verbatim>\<open>spop\<close> being
  one step of the store. Then no item is handed out twice, every item is either still
  queued or was handed out, the first \<open>N\<close> calls of \<^verbatim>\<open>spop\<close> receive an item and every
  later call receives nothing, and no two calls receive the same item.
\<close>

theorem spop_unique:
  assumes "distinct (queue s key)" and "replies s = []"
  shows "distinct (taken (run dst_dir key schedule s))
    \<and> mset (taken (run dst_dir key schedule s)) + mset (queue (run dst_dir key schedule s) key)
        = mset (queue s key)
    \<and> (\<forall>i < length (replies (run dst_dir key schedule s)).
          (snd (replies (run dst_dir key schedule s) ! i) = None) = (length (queue s key) \<le> i))
    \<and> (\<forall>i < length (replies (run dst_dir key schedule s)).
        \<forall>j < length (replies (run dst_dir key schedule s)).
          i \<noteq> j \<and> snd (replies (run dst_dir key schedule s) ! i) \<noteq> None \<longrightarrow>
          snd (replies (run dst_dir key schedule s) ! i) \<noteq> snd (replies (run dst_dir key schedule s) ! j))"
proof -
  let ?s = "run dst_dir key schedule s"
  let ?T = "taken ?s"
  let ?R = "map snd (replies ?s)"
  from run_inv[OF inv_start[OF assms(2)], where dst_dir=dst_dir and schedule=schedule and key=key]
  obtain m where ms: "mset ?T + mset (queue ?s key) = mset (queue s key)"
    and R: "?R = map Some ?T @ replicate m None"
    and m: "0 < m \<longrightarrow> queue ?s key = []"
    by (auto simp: queue_inv_def)
  from ms have "mset (?T @ queue ?s key) = mset (queue s key)" by simp
  from mset_eq_imp_distinct_iff[OF this] assms(1)
  have dTQ: "distinct (?T @ queue ?s key)" by simp
  then have dT: "distinct ?T" by simp
  from ms have "size (mset ?T + mset (queue ?s key)) = size (mset (queue s key))" by simp
  then have len: "length ?T + length (queue ?s key) = length (queue s key)" by simp
  have lenR: "length (replies ?s) = length ?T + m"
    using R by (metis length_append length_map length_replicate)
  have nth: "snd (replies ?s ! i) = (map Some ?T @ replicate m None) ! i"
    if "i < length (replies ?s)" for i
    using that R by (metis nth_map)
  have third: "(snd (replies ?s ! i) = None) = (length (queue s key) \<le> i)"
    if i: "i < length (replies ?s)" for i
  proof (cases "i < length ?T")
    case True
    then have "snd (replies ?s ! i) = Some (?T ! i)"
      using nth[OF i] by (simp add: nth_append)
    with True len show ?thesis by simp
  next
    case False
    with i lenR have "0 < m" by simp
    with m len have "length ?T = length (queue s key)" by simp
    moreover from False i lenR have "snd (replies ?s ! i) = None"
      using nth[OF i] by (simp add: nth_append)
    ultimately show ?thesis using False by simp
  qed
  have fourth: "snd (replies ?s ! i) \<noteq> snd (replies ?s ! j)"
    if i: "i < length (replies ?s)" and j: "j < length (replies ?s)" and ne: "i \<noteq> j"
      and some: "snd (replies ?s ! i) \<noteq> None" for i j
  proof -
    from some nth[OF i] i lenR have iT: "i < length ?T"
      by (cases "i < length ?T") (simp_all add: nth_append)
    then have vi: "snd (replies ?s ! i) = Some (?T ! i)"
      using nth[OF i] by (simp add: nth_append)
    show ?thesis
    proof (cases "j < length ?T")
      case True
      then have "snd (replies ?s ! j) = Some (?T ! j)"
        using nth[OF j] by (simp add: nth_append)
      moreover from dT iT True ne have "?T ! i \<noteq> ?T ! j"
        by (simp add: nth_eq_iff_index_eq)
      ultimately show ?thesis using vi by simp
    next
      case False
      with j lenR have "snd (replies ?s ! j) = None"
        using nth[OF j] by (simp add: nth_append)
      with vi show ?thesis by simp
    qed
  qed
  show ?thesis
  proof (intro conjI allI impI)
    show "distinct ?T" by (rule dT)
    show "mset ?T + mset (queue ?s key) = mset (queue s key)" by (rule ms)
    show "(snd (replies ?s ! i) = None) = (length (queue s key) \<le> i)"
      if "i < length (replies ?s)" for i using that by (rule third)
    show "snd (replies ?s ! i) \<noteq> snd (replies ?s ! j)"
      if "i < length (replies ?s)" "j < length (replies ?s)"
        "i \<noteq> j \<and> snd (replies ?s ! i) \<noteq> None" for i j
      using that fourth by blast
  qed
qed

theorem spop_unique_witness:
  "distinct (queue (seeded ''k'' [''a'', ''b'']) ''k'')
   \<and> replies (seeded ''k'' [''a'', ''b'']) = []
   \<and> distinct (taken (run ''d'' ''k'' [(0, 0), (1, 0), (0, 5), (1, 3), (0, 0), (1, 1), (1, 0), (0, 0)] (seeded ''k'' [''a'', ''b''])))
   \<and> replies (run ''d'' ''k'' [(0, 0), (1, 0), (0, 5), (1, 3), (0, 0), (1, 1), (1, 0), (0, 0)] (seeded ''k'' [''a'', ''b''])) =
       [(0, Some ''b''), (1, Some ''a''), (1, None), (0, None)]"
proof -
  have h1: "distinct (queue (seeded ''k'' [''a'', ''b'']) ''k'')"
    by (simp add: seeded_def)
  have h2: "replies (seeded ''k'' [''a'', ''b'']) = []"
    by (simp add: seeded_def)
  from spop_unique [OF h1 h2, where dst_dir = "''d''" and schedule = "[(0, 0), (1, 0), (0, 5), (1, 3), (0, 0), (1, 1), (1, 0), (0, 0)]"]
  have "distinct (taken (run ''d'' ''k'' [(0, 0), (1, 0), (0, 5), (1, 3), (0, 0), (1, 1), (1, 0), (0, 0)] (seeded ''k'' [''a'', ''b''])))"
    by blast
  moreover have "replies (run ''d'' ''k'' [(0, 0), (1, 0), (0, 5), (1, 3), (0, 0), (1, 1), (1, 0), (0, 0)] (seeded ''k'' [''a'', ''b''])) =
       [(0, Some ''b''), (1, Some ''a''), (1, None), (0, None)]"
    by code_simp
  ultimately show ?thesis using h1 h2 by blast
qed

end
